theory Spec2Isabelle
  imports Complex_Main "HOL-Library.Log_Nat"
begin

section \<open>Numeric helpers\<close>

subsection \<open>The numbers of the source language\<close>

text \<open>
  A \<^verbatim>\<open>number\<close> of the source language is an IEEE-754 binary64 value: a finite
  value \<open>(-1)\<^sup>s \<cdot> m \<cdot> 2\<^sup>e\<close> with a sign \<open>s\<close> (true for minus), a mantissa \<open>m\<close> and an
  exponent \<open>e\<close>, or an infinity with its sign, or NaN. Every finite value has one
  representation: \<open>m\<close> has 53 bits, or fewer at the least exponent (the subnormal
  numbers and the two zeros).
\<close>

datatype double = Finite bool int int | Infinity bool | NaN





text \<open>
  Every operation yields the number nearest to its exact result, ties going to the
  even mantissa. \<open>round_double s M E\<close> is the number nearest to the exact magnitude
  \<open>M \<cdot> 2\<^sup>E\<close>, with the sign \<open>s\<close>: the bits of \<open>M\<close> beyond the 53rd, and those below the
  least exponent, are dropped and decide the last bit kept; \<open>pack\<close> carries a
  mantissa rounded up to \<open>2 ^ 53\<close> over to the next exponent and turns a result
  beyond the largest exponent into an infinity.
\<close>

definition pack :: "bool \<Rightarrow> int \<Rightarrow> int \<Rightarrow> double" where
  "pack s q e =
     (let m' = (if q = 2 ^ 53 then 2 ^ 52 else q);
          e' = (if q = 2 ^ 53 then e + 1 else e)
      in if e' > 971 then Infinity s
         else if m' = 0 then Finite s 0 (- 1074)
         else Finite s m' e')"

definition round_double :: "bool \<Rightarrow> int \<Rightarrow> int \<Rightarrow> double" where
  "round_double s M E =
     (if M = 0 then Finite s 0 (- 1074)
      else
        (let k = max (bitlen M - 53) (- 1074 - E) in
         if k \<le> 0 then pack s (M * 2 ^ nat (- k)) (E + k)
         else
           (let q = M div 2 ^ nat k;
                r = M mod 2 ^ nat k;
                half = 2 ^ nat (k - 1)
            in pack s (if half < r \<or> (r = half \<and> odd q) then q + 1 else q) (E + k))))"

fun dneg :: "double \<Rightarrow> double" where
  "dneg (Finite s m e) = Finite (\<not> s) m e"
| "dneg (Infinity s) = Infinity (\<not> s)"
| "dneg NaN = NaN"

definition signed :: "bool \<Rightarrow> int \<Rightarrow> int" where
  "signed s m = (if s then - m else m)"

text \<open>
  Addition: the infinities absorb a finite operand and cancel to NaN; two finite
  operands are brought to the smaller exponent and added exactly, then rounded. An
  exact sum of zero is \<open>+0\<close>, unless both operands are \<open>-0\<close>. Subtraction adds the
  negated operand.
\<close>

fun dadd :: "double \<Rightarrow> double \<Rightarrow> double" where
  "dadd NaN y = NaN"
| "dadd x NaN = NaN"
| "dadd (Infinity s) (Infinity s') = (if s = s' then Infinity s else NaN)"
| "dadd (Infinity s) (Finite s' m' e') = Infinity s"
| "dadd (Finite s m e) (Infinity s') = Infinity s'"
| "dadd (Finite s m e) (Finite s' m' e') =
     (let e0 = min e e';
          a = signed s m * 2 ^ nat (e - e0) + signed s' m' * 2 ^ nat (e' - e0)
      in if a = 0 then Finite (s \<and> s') 0 (- 1074)
         else round_double (a < 0) \<bar>a\<bar> e0)"

definition dsub :: "double \<Rightarrow> double \<Rightarrow> double" where
  "dsub x y = dadd x (dneg y)"

text \<open>Multiplication: the sign is the product of the signs; infinity times zero is NaN.\<close>

fun dmul :: "double \<Rightarrow> double \<Rightarrow> double" where
  "dmul NaN y = NaN"
| "dmul x NaN = NaN"
| "dmul (Infinity s) (Infinity s') = Infinity (s \<noteq> s')"
| "dmul (Infinity s) (Finite s' m' e') = (if m' = 0 then NaN else Infinity (s \<noteq> s'))"
| "dmul (Finite s m e) (Infinity s') = (if m = 0 then NaN else Infinity (s \<noteq> s'))"
| "dmul (Finite s m e) (Finite s' m' e') = round_double (s \<noteq> s') (m * m') (e + e')"

text \<open>
  Division never raises. A zero divisor gives an infinity, with the product of the
  signs, or NaN for \<open>0 / 0\<close>. The quotient of two finite numbers is computed to 64
  bits and more, with one more bit that says whether a remainder is left, and
  rounded.
\<close>

fun ddiv :: "double \<Rightarrow> double \<Rightarrow> double" where
  "ddiv NaN y = NaN"
| "ddiv x NaN = NaN"
| "ddiv (Infinity s) (Infinity s') = NaN"
| "ddiv (Infinity s) (Finite s' m' e') = Infinity (s \<noteq> s')"
| "ddiv (Finite s m e) (Infinity s') = Finite (s \<noteq> s') 0 (- 1074)"
| "ddiv (Finite s m e) (Finite s' m' e') =
     (if m' = 0 then (if m = 0 then NaN else Infinity (s \<noteq> s'))
      else if m = 0 then Finite (s \<noteq> s') 0 (- 1074)
      else
        (let p = nat (bitlen m') + 64;
             q = (m * 2 ^ p) div m';
             r = (m * 2 ^ p) mod m'
         in round_double (s \<noteq> s') (2 * q + (if r = 0 then 0 else 1)) (e - e' - int p - 1)))"

text \<open>
  Literals: an integer literal is the number nearest to it, and a decimal literal
  such as \<^verbatim>\<open>0.1\<close> is the number nearest to the fraction it denotes, here the
  quotient of two integers that are numbers themselves.
\<close>

definition double_of_int :: "int \<Rightarrow> double" where
  "double_of_int i = round_double (i < 0) \<bar>i\<bar> 0"

definition decimal :: "int \<Rightarrow> int \<Rightarrow> double" where
  "decimal n d = ddiv (double_of_int n) (double_of_int d)"

subsection \<open>The helpers\<close>

text \<open>
  \<^verbatim>\<open>
  export function blend(...transparencies: number[]) {
    let result = 1;
    for (const transparency of transparencies) {
      result *= 1 - transparency;
    }
    return 1 - result;
  }
  \<close>
  The loop is a left fold over the arguments with the accumulator \<open>result\<close>.
\<close>

fun blend_loop :: "double \<Rightarrow> double list \<Rightarrow> double" where
  "blend_loop result [] = result"
| "blend_loop result (transparency # rest) =
     blend_loop (dmul result (dsub (double_of_int 1) transparency)) rest"

definition blend :: "double list \<Rightarrow> double" where
  "blend transparencies = dsub (double_of_int 1) (blend_loop (double_of_int 1) transparencies)"



section \<open>Values and objects\<close>

text \<open>
  The binding helpers are written against values of any type (\<^verbatim>\<open>unknown\<close>), so the
  model has one type of values. Objects live in a heap and are referred to by
  address: two references are the same object exactly when the addresses agree.
  Function values are opaque (\<open>Func\<close>): the model does not run them. The functions
  that the helpers are given as arguments (mappers and combiners) are passed as
  HOL functions instead; they may raise, hence their result type.
\<close>

type_synonym addr = nat

datatype val =
    Undefined
  | Null
  | Bool bool
  | Num real
  | Str string
  | Func nat
  | Tuple "val list"
  | Ref addr

datatype fault =
    NotCallable
  | ForeignCall
  | IllTyped
  | Dangling
  | MisuseFault

type_synonym callback = "val \<Rightarrow> fault + val"

text \<open>
  An object of the heap is either an ordinary object with its own fields, or one of
  the three kinds of binding the binding library creates: a source cell holding a
  value, a binding derived from another one through a function, or the join of
  several bindings.
\<close>

datatype obj =
    Plain "(string \<times> val) list"
  | Source val
  | Mapped addr callback
  | Joined "addr list"

text \<open>
  The state threaded through the helpers: the heap, and the log of the arguments
  with which the helpers themselves have invoked a callback they were given
  (evaluations made inside the binding library are not logged: their number is
  left open by the library's contract).
\<close>

record state =
  heap :: "obj list"
  calls :: "val list"

definition alloc :: "obj \<Rightarrow> state \<Rightarrow> val \<times> state" where
  "alloc ob s = (Ref (length (heap s)), s\<lparr>heap := heap s @ [ob]\<rparr>)"

fun allocated :: "obj list \<Rightarrow> val \<Rightarrow> bool" where
  "allocated h (Ref a) = (a < length h)"
| "allocated h v = True"

fun collect :: "(fault + 'a) list \<Rightarrow> fault + 'a list" where
  "collect [] = Inr []"
| "collect (Inl e # rs) = Inl e"
| "collect (Inr x # rs) = (case collect rs of Inl e \<Rightarrow> Inl e | Inr xs \<Rightarrow> Inr (x # xs))"

subsection \<open>The operators of the source language that \<open>isBinding\<close> uses\<close>

text \<open>\<^verbatim>\<open>!!value\<close>: the falsy values are undefined, null, false, 0 and the empty string.\<close>

fun truthy :: "val \<Rightarrow> bool" where
  "truthy Undefined = False"
| "truthy Null = False"
| "truthy (Bool b) = b"
| "truthy (Num x) = (x \<noteq> 0)"
| "truthy (Str s) = (s \<noteq> [])"
| "truthy (Func f) = True"
| "truthy (Tuple xs) = True"
| "truthy (Ref a) = True"

fun typeof :: "val \<Rightarrow> string" where
  "typeof Undefined = ''undefined''"
| "typeof Null = ''object''"
| "typeof (Bool b) = ''boolean''"
| "typeof (Num x) = ''number''"
| "typeof (Str s) = ''string''"
| "typeof (Func f) = ''function''"
| "typeof (Tuple xs) = ''object''"
| "typeof (Ref a) = ''object''"

text \<open>
  \<^verbatim>\<open>name in value\<close> asks for a property, own or inherited. Ordinary objects inherit
  the members of the object prototype and arrays those of the array prototype.
\<close>

definition object_prototype_names :: "string list" where
  "object_prototype_names =
     [''constructor'', ''hasOwnProperty'', ''isPrototypeOf'', ''propertyIsEnumerable'',
      ''toLocaleString'', ''toString'', ''valueOf'']"

definition array_prototype_names :: "string list" where
  "array_prototype_names =
     [''length'', ''concat'', ''every'', ''filter'', ''find'', ''findIndex'', ''forEach'',
      ''includes'', ''indexOf'', ''join'', ''keys'', ''map'', ''pop'', ''push'', ''reduce'',
      ''reverse'', ''shift'', ''slice'', ''some'', ''sort'', ''splice'', ''unshift'']"

text \<open>
  Modelled from the spec: the members of a binding made by the binding library
  (\<^verbatim>\<open>@rbxts/react\<close>, not part of the sources). A container ``exposes both a
  synchronous value read and a transform operation'': \<^verbatim>\<open>getValue\<close> and \<^verbatim>\<open>map\<close>.
\<close>

definition binding_member_names :: "string list" where
  "binding_member_names = [''getValue'', ''map'']"

text \<open>
  On a primitive value the operator raises, and a function value has properties of
  its own; \<open>isBinding\<close> reaches the operator only behind its truthiness and
  \<^verbatim>\<open>typeof\<close> tests, so neither case is ever evaluated there. A reference to no
  object has no property.
\<close>

fun has_property :: "obj list \<Rightarrow> string \<Rightarrow> val \<Rightarrow> bool" where
  "has_property h name (Ref a) =
     (a < length h \<and>
      (case h ! a of
         Plain fs \<Rightarrow> name \<in> set (map fst fs) \<or> name \<in> set object_prototype_names
       | _ \<Rightarrow> name \<in> set binding_member_names \<or> name \<in> set object_prototype_names))"
| "has_property h name (Tuple xs) =
     (name \<in> set array_prototype_names \<or> name \<in> set object_prototype_names)"
| "has_property h name v = False"

section \<open>The binding library\<close>

fun is_library_binding :: "obj \<Rightarrow> bool" where
  "is_library_binding (Plain fs) = False"
| "is_library_binding (Source v) = True"
| "is_library_binding (Mapped src f) = True"
| "is_library_binding (Joined srcs) = True"

text \<open>
  Calling a method of an object that the library did not make: a field holding a
  function value is code outside the model, any other field is not callable.
\<close>

fun foreign_method :: "(string \<times> val) list \<Rightarrow> string \<Rightarrow> fault" where
  "foreign_method fs name =
     (case map_of fs name of Some (Func f) \<Rightarrow> ForeignCall | _ \<Rightarrow> NotCallable)"

text \<open>
  Modelled from the spec: the synchronous value read of a container
  (\<^verbatim>\<open>Binding.getValue\<close> of \<^verbatim>\<open>@rbxts/react\<close>, not part of the sources). A
  source cell reads as its current value; a derived container reads as its function
  applied to the current value of its source (``the cached value always equals
  \<^verbatim>\<open>combiner(currentValuesOfSources)\<close>''); a joined container reads as ``the
  ordered tuple of all source values''. A binding is built from bindings that exist
  already, so its sources have smaller addresses: the recursion descends.
\<close>

function getValue :: "obj list \<Rightarrow> addr \<Rightarrow> fault + val" where
  "getValue h a =
     (if a < length h then
        (case h ! a of
           Source v \<Rightarrow> Inr v
         | Mapped src f \<Rightarrow>
             (if src < a then (case getValue h src of Inl e \<Rightarrow> Inl e | Inr v \<Rightarrow> f v)
              else Inl Dangling)
         | Joined srcs \<Rightarrow>
             (case collect (map (\<lambda>src. if src < a then getValue h src else Inl Dangling) srcs) of
                Inl e \<Rightarrow> Inl e
              | Inr vs \<Rightarrow> Inr (Tuple vs))
         | Plain fs \<Rightarrow> Inl (foreign_method fs ''getValue''))
      else Inl Dangling)"
  by pat_completeness auto
termination
  by (relation "measure snd") auto

declare getValue.simps [simp del]

text \<open>
  Modelled from the spec: \<^verbatim>\<open>lift(value) -> Container\<close>, the factory
  \<^verbatim>\<open>createBinding\<close> of \<^verbatim>\<open>@rbxts/react\<close> (not part of the sources). It makes a
  new source cell. The library returns the binding together with its setter; the
  helpers keep the binding only, and \<open>setValue\<close> is what the setter of the cell at
  an address does.
\<close>

definition createBinding :: "val \<Rightarrow> state \<Rightarrow> val \<times> state" where
  "createBinding initial s = alloc (Source initial) s"

definition setValue :: "addr \<Rightarrow> val \<Rightarrow> state \<Rightarrow> state" where
  "setValue a v s =
     (if a < length (heap s) then
        (case heap s ! a of
           Source old \<Rightarrow> s\<lparr>heap := (heap s)[a := Source v]\<rparr>
         | _ \<Rightarrow> s)
      else s)"

text \<open>
  Modelled from the spec: \<^verbatim>\<open>derive(container, fn) -> Container\<close>, the method
  \<^verbatim>\<open>Binding.map\<close> of \<^verbatim>\<open>@rbxts/react\<close> (not part of the sources), as the method
  call \<^verbatim>\<open>binding.map(f)\<close>: on a binding of the library it makes a derived
  binding; on any other object the call goes to that object's own \<^verbatim>\<open>map\<close> field.
\<close>

definition binding_map :: "val \<Rightarrow> callback \<Rightarrow> state \<Rightarrow> fault + (val \<times> state)" where
  "binding_map b f s =
     (case b of
        Ref a \<Rightarrow>
          (if a < length (heap s) then
             (case heap s ! a of
                Plain fs \<Rightarrow> Inl (foreign_method fs ''map'')
              | _ \<Rightarrow> Inr (alloc (Mapped a f) s))
           else Inl Dangling)
      | _ \<Rightarrow> Inl NotCallable)"

text \<open>
  Modelled from the spec: ``join multiple containers into one'', the function
  \<^verbatim>\<open>joinBindings\<close> of \<^verbatim>\<open>@rbxts/react\<close> (not part of the sources). Its arguments
  are bindings of the library; what it does with an object of another make is
  outside the model.
\<close>

fun binding_addr :: "obj list \<Rightarrow> val \<Rightarrow> fault + addr" where
  "binding_addr h (Ref a) =
     (if a < length h then
        (if is_library_binding (h ! a) then Inr a else Inl ForeignCall)
      else Inl Dangling)"
| "binding_addr h v = Inl IllTyped"

definition joinBindings :: "val list \<Rightarrow> state \<Rightarrow> fault + (val \<times> state)" where
  "joinBindings bindings s =
     (case collect (map (binding_addr (heap s)) bindings) of
        Inl e \<Rightarrow> Inl e
      | Inr srcs \<Rightarrow> Inr (alloc (Joined srcs) s))"

section \<open>The binding helpers of the repository\<close>

text \<open>
  \<^verbatim>\<open>
  export function isBinding(value: unknown): value is Binding<unknown> {
    return (
      !!value &&
      typeof value === "object" &&
      "getValue" in value &&
      "map" in value
    );
  }
  \<close>
\<close>

definition isBinding :: "obj list \<Rightarrow> val \<Rightarrow> bool" where
  "isBinding h v \<longleftrightarrow>
     truthy v \<and> typeof v = ''object'' \<and> has_property h ''getValue'' v \<and> has_property h ''map'' v"

text \<open>
  \<^verbatim>\<open>
  export function toBinding<T>(value: T | Binding<T>): Binding<T> {
    if (isBinding(value)) {
      return value;
    } else {
      const [result] = createBinding(value);
      return result;
    }
  }
  \<close>
\<close>

definition toBinding :: "val \<Rightarrow> state \<Rightarrow> val \<times> state" where
  "toBinding v s = (if isBinding (heap s) v then (v, s) else createBinding v s)"

text \<open>
  \<^verbatim>\<open>
  export function mapBinding<T, U>(binding: T | Binding<T>, callback: (value: T) => U): Binding<U> {
    if (isBinding(binding)) {
      return binding.map(callback);
    } else {
      const [result] = createBinding(callback(binding as T));
      return result;
    }
  }
  \<close>
  In the second branch the helper itself applies the callback: the application is
  logged, and an exception of the callback leaves the helper.
\<close>

definition mapBinding :: "val \<Rightarrow> callback \<Rightarrow> state \<Rightarrow> fault + (val \<times> state)" where
  "mapBinding binding callback s =
     (if isBinding (heap s) binding then binding_map binding callback s
      else
        (case callback binding of
           Inl e \<Rightarrow> Inl e
         | Inr r \<Rightarrow> Inr (createBinding r (s\<lparr>calls := calls s @ [binding]\<rparr>))))"

text \<open>
  \<^verbatim>\<open>
  export function composeBindings<T>(...values: [...Bindable[], BindingCombiner<Bindable[], T>]): Binding<T> {
    const combiner = values.pop() as BindingCombiner<Bindable[], T>;
    const bindings = values.map(toBinding);
    return joinBindings(bindings).map((bindings) => combiner(...bindings));
  }
  \<close>
  The model takes the inputs and the combiner apart already (the \<^verbatim>\<open>pop\<close>).
  \<open>map_toBinding\<close> is \<^verbatim>\<open>values.map(toBinding)\<close>, from left to right; \<open>spread\<close> is
  the function given to the joined binding, which spreads the tuple of values over
  the combiner's parameters.
\<close>

fun map_toBinding :: "val list \<Rightarrow> state \<Rightarrow> val list \<times> state" where
  "map_toBinding [] s = ([], s)"
| "map_toBinding (v # vs) s =
     (case toBinding v s of
        (b, s1) \<Rightarrow> (case map_toBinding vs s1 of (bs, s2) \<Rightarrow> (b # bs, s2)))"

fun spread :: "(val list \<Rightarrow> fault + val) \<Rightarrow> callback" where
  "spread combiner (Tuple xs) = combiner xs"
| "spread combiner v = Inl IllTyped"

definition composeBindings ::
  "val list \<Rightarrow> (val list \<Rightarrow> fault + val) \<Rightarrow> state \<Rightarrow> fault + (val \<times> state)" where
  "composeBindings vals combiner s =
     (case map_toBinding vals s of
        (bindings, s1) \<Rightarrow>
          (case joinBindings bindings s1 of
             Inl e \<Rightarrow> Inl e
           | Inr (joined, s2) \<Rightarrow> binding_map joined (spread combiner) s2))"



text \<open>
  What an input of \<open>composeBindings\<close> currently stands for: the value of a binding,
  or the input itself when it is a constant.
\<close>

definition read_input :: "obj list \<Rightarrow> val \<Rightarrow> fault + val" where
  "read_input h v =
     (if isBinding h v then (case v of Ref a \<Rightarrow> getValue h a | _ \<Rightarrow> Inl IllTyped)
      else Inr v)"

text \<open>
  The inputs the theorem on \<open>composeBindings\<close> speaks about: every reference is to
  an object of the heap, and an object that passes \<open>isBinding\<close> is a binding of the
  library.
\<close>

fun input_ok :: "obj list \<Rightarrow> val \<Rightarrow> bool" where
  "input_ok h (Ref a) = (a < length h \<and> (isBinding h (Ref a) \<longrightarrow> is_library_binding (h ! a)))"
| "input_ok h v = True"

text \<open>
  \<open>bound_to h r b\<close>: \<open>b\<close> is a binding of the library in the heap \<open>h\<close>, and it
  reads as \<open>r\<close> there. It is what \<open>toBinding\<close> makes of an input.
\<close>

definition bound_to :: "obj list \<Rightarrow> fault + val \<Rightarrow> val \<Rightarrow> bool" where
  "bound_to h r b \<longleftrightarrow>
     (\<exists>a. b = Ref a \<and> a < length h \<and> is_library_binding (h ! a) \<and> getValue h a = r)"

text \<open>Concrete data for the examples: the combiner \<^verbatim>\<open>(a, b) => a + b\<close>, and so on.\<close>

definition plus_combiner :: "val list \<Rightarrow> fault + val" where
  "plus_combiner xs = (case xs of [Num a, Num b] \<Rightarrow> Inr (Num (a + b)) | _ \<Rightarrow> Inl IllTyped)"

definition empty_state :: state where
  "empty_state = \<lparr>heap = [], calls = []\<rparr>"

definition twice :: callback where
  "twice v = (case v of Num x \<Rightarrow> Inr (Num (2 * x)) | _ \<Rightarrow> Inl IllTyped)"

definition answer :: callback where
  "answer v = Inr (Num 42)"

definition duck_heap :: "obj list" where
  "duck_heap = [Plain [(''getValue'', Num 1), (''map'', Str ''x'')]]"

section \<open>The debounce hook\<close>

text \<open>
  \<^verbatim>\<open>export type Callback = (...args: Array<any>) => any;\<close>
  The options are those of \<^verbatim>\<open>UseDebounceOptions\<close>: \<^verbatim>\<open>wait\<close>, and the fields
  \<^verbatim>\<open>leading\<close>, \<^verbatim>\<open>trailing\<close> and \<^verbatim>\<open>maxWait\<close> it inherits; all optional.
\<close>

type_synonym callback_fn = "val list \<Rightarrow> val"

record options =
  wait :: "real option"
  leading :: "bool option"
  trailing :: "bool option"
  maxWait :: "real option"

subsection \<open>The scheduling primitive\<close>

text \<open>
  Modelled from the spec: the debounced function that \<^verbatim>\<open>debounce\<close> of
  \<^verbatim>\<open>@rbxts/set-timeout\<close> returns (not part of the sources), after the
  DebounceInstance and the state machine of the scheduler: the wrapped callback;
  the \<open>wait\<close> and \<open>maxWait\<close> durations and the \<open>leading\<close> and \<open>trailing\<close> flags; the
  state, Idle (no timer) or Pending (a timer with its due time); the time of the
  first call of the current burst; the arguments of the most recent call; the
  last computed result. The wrapped callback of the hook reads a mutable reference
  when it is called, so it is a function of the reference's current content.
\<close>

record debounced =
  wrapped :: "callback_fn \<Rightarrow> callback_fn"
  waitTime :: real
  maxWaitTime :: "real option"
  onLeading :: bool
  onTrailing :: bool
  timerDue :: "real option"
  burstStart :: "real option"
  pendingArgs :: "val list option"
  lastResult :: val

text \<open>
  Modelled from the spec: the valid domain of the two durations. A misuse is a
  configuration with ``values outside valid domain (e.g., negative wait/maxWait,
  maxWait < wait)''. An absent duration is in the domain.
\<close>

definition valid_timing :: "real option \<Rightarrow> real option \<Rightarrow> bool" where
  "valid_timing w m \<longleftrightarrow>
     (case w of None \<Rightarrow> True | Some t \<Rightarrow> 0 \<le> t)
     \<and> (case m of
          None \<Rightarrow> True
        | Some x \<Rightarrow> 0 \<le> x \<and> (case w of None \<Rightarrow> True | Some t \<Rightarrow> t \<le> x))"

text \<open>
  Modelled from the spec: the construction of a scheduler, ``taking a callback and
  a configuration record and returning the control surface''. A misuse is
  ``detected at scheduler construction and reported immediately rather than
  deferred to first call''. Otherwise the scheduler starts Idle with no result.
  The spec names no default: an absent \<open>wait\<close> is taken as 0, an absent \<open>leading\<close>
  as off and an absent \<open>trailing\<close> as on.
\<close>

definition debounce ::
  "(callback_fn \<Rightarrow> callback_fn) \<Rightarrow> real option \<Rightarrow> options \<Rightarrow> fault + debounced" where
  "debounce f w opts =
     (if valid_timing w (maxWait opts) then
        Inr \<lparr>wrapped = f,
             waitTime = (case w of None \<Rightarrow> 0 | Some t \<Rightarrow> t),
             maxWaitTime = maxWait opts,
             onLeading = (case leading opts of None \<Rightarrow> False | Some b \<Rightarrow> b),
             onTrailing = (case trailing opts of None \<Rightarrow> True | Some b \<Rightarrow> b),
             timerDue = None, burstStart = None, pendingArgs = None,
             lastResult = Undefined\<rparr>
      else Inl MisuseFault)"

text \<open>
  Modelled from the spec: \<^verbatim>\<open>cancel()\<close> ``discards the live timer and pending
  args; transitions to Idle; the last result is left untouched''.
\<close>

definition debounced_cancel :: "debounced \<Rightarrow> debounced" where
  "debounced_cancel d = d\<lparr>timerDue := None, burstStart := None, pendingArgs := None\<rparr>"

subsection \<open>The hooks of the repository\<close>

text \<open>\<^verbatim>\<open>export const isStrictEqual = (a: unknown, b: unknown) => a === b;\<close>\<close>

definition isStrictEqual :: "'a \<Rightarrow> 'a \<Rightarrow> bool" where
  "isStrictEqual a b \<longleftrightarrow> a = b"

text \<open>
  \<^verbatim>\<open>
  export function useLatest<T>(value: T, predicate: Predicate<T> = isStrictEqual) {
    const ref = useRef(value);
    useMemo(() => {
      if (!predicate(ref.current, value)) {
        ref.current = value;
      }
    }, [value]);
    return ref;
  }
  \<close>
  A hook keeps its slots from one render to the next: the model is given the
  content of the reference after the previous render (\<open>None\<close> on the first
  render, where \<^verbatim>\<open>useRef\<close> initialises it) and returns its content after this one.
\<close>

definition useLatest :: "'a \<Rightarrow> ('a \<Rightarrow> 'a \<Rightarrow> bool) \<Rightarrow> 'a option \<Rightarrow> 'a" where
  "useLatest v predicate ref =
     (case ref of
        None \<Rightarrow> v
      | Some cur \<Rightarrow> (if \<not> predicate cur v then v else cur))"

text \<open>
  \<^verbatim>\<open>
  export function useUnmountEffect(callback: () => void) {
    const callbackRef = useLatest(callback);
    useEffect(() => {
      return () => {
        callbackRef.current();
      };
    }, []);
  }
  \<close>
  The effect is registered once; its cleanup runs when the component unmounts and
  calls what the reference then holds (see \<open>unmount\<close> below).
\<close>

definition useUnmountEffect :: "'a \<Rightarrow> 'a option \<Rightarrow> 'a" where
  "useUnmountEffect cb ref = useLatest cb isStrictEqual ref"

text \<open>
  The slots of one call site of \<open>useDebounceCallback\<close>: the reference to the latest
  callback, the memoised debounced function, and the reference of the unmount
  effect. The returned record \<^verbatim>\<open>{run, cancel, flush, pending}\<close> holds the
  debounced function and three of its methods: handles on the memoised instance.
\<close>

record 'd hooks =
  callbackRef :: callback_fn
  debounced :: 'd
  unmountRef :: "'d \<Rightarrow> 'd"

text \<open>
  \<^verbatim>\<open>
  export function useDebounceCallback<T extends Callback>(
    callback: T, options: UseDebounceOptions = {}): UseDebounceResult<T> {
    const callbackRef = useLatest(callback);
    const debounced = useMemo(() => {
      return debounce((...args: unknown[]) => {
          return callbackRef.current(...args);
        }, options.wait, options);
    }, []) as Debounced<T>;
    useUnmountEffect(() => {
      debounced.cancel();
    });
    return { run: debounced, cancel: debounced.cancel,
             flush: debounced.flush, pending: debounced.pending };
  }
  \<close>
  The scheduling primitive is a parameter: its constructor \<open>debounce_impl\<close> and the
  \<^verbatim>\<open>cancel\<close> method \<open>cancel_impl\<close> of what it returns. \<open>prev\<close> holds the slots of
  the previous render. The memo has no dependency, so the constructor runs on the
  first render only; an exception it raises leaves the hook.
\<close>

definition useDebounceCallback ::
  "((callback_fn \<Rightarrow> callback_fn) \<Rightarrow> real option \<Rightarrow> options \<Rightarrow> fault + 'd) \<Rightarrow>
   ('d \<Rightarrow> 'd) \<Rightarrow>
   callback_fn \<Rightarrow> options \<Rightarrow> 'd hooks option \<Rightarrow> fault + 'd hooks" where
  "useDebounceCallback debounce_impl cancel_impl cb opts prev =
     (let cref = useLatest cb isStrictEqual (map_option callbackRef prev) in
      case (case prev of
              None \<Rightarrow> debounce_impl (\<lambda>current args. current args) (wait opts) opts
            | Some p \<Rightarrow> Inr (debounced p)) of
        Inl e \<Rightarrow> Inl e
      | Inr d \<Rightarrow>
          Inr \<lparr>callbackRef = cref, debounced = d,
               unmountRef = useUnmountEffect cancel_impl (map_option unmountRef prev)\<rparr>)"

text \<open>
  The configurations of the hook that are in the valid domain: those whose \<open>wait\<close>
  and \<open>maxWait\<close> are.
\<close>

definition valid_config :: "options \<Rightarrow> bool" where
  "valid_config opts \<longleftrightarrow> valid_timing (wait opts) (maxWait opts)"

subsection \<open>A component using the hook\<close>

text \<open>
  The component that owns the call site, with the clock of the host's timer
  facility and the log of the completed invocations of the wrapped callback
  (arguments and result).
\<close>

record world =
  hook :: "debounced hooks"
  clock :: real
  invocations :: "(val list \<times> val) list"
  mounted :: bool

definition with_debounced :: "(debounced \<Rightarrow> debounced) \<Rightarrow> world \<Rightarrow> world" where
  "with_debounced f w = w\<lparr>hook := (hook w)\<lparr>debounced := f (debounced (hook w))\<rparr>\<rparr>"

text \<open>
  An invocation of the wrapped callback: it calls what the callback reference
  holds now; the scheduler records the result.
\<close>

definition invoke :: "val list \<Rightarrow> world \<Rightarrow> world" where
  "invoke args w =
     (let r = wrapped (debounced (hook w)) (callbackRef (hook w)) args in
      w\<lparr>hook := (hook w)\<lparr>debounced := (debounced (hook w))\<lparr>lastResult := r\<rparr>\<rparr>,
        invocations := invocations w @ [(args, r)]\<rparr>)"

text \<open>Modelled from the spec: \<^verbatim>\<open>pending()\<close> ``returns true iff the state is Pending''.\<close>

definition pending :: "world \<Rightarrow> bool" where
  "pending w \<longleftrightarrow> timerDue (debounced (hook w)) \<noteq> None"

text \<open>
  Modelled from the spec: \<^verbatim>\<open>run(...args)\<close> ``records args as the pending call's
  arguments, and (re)schedules invocation. If leading is enabled and the instance
  was Idle, invokes the callback immediately with these args. Returns the last
  computed result.'' Each call resets the wait window, ``unless a maxWait bound is
  configured, in which case the callback fires no later than maxWait after the
  first call in the current burst''.
\<close>

definition run :: "val list \<Rightarrow> world \<Rightarrow> val \<times> world" where
  "run args w =
     (let d = debounced (hook w);
          idle = (timerDue d = None);
          start = (case burstStart d of None \<Rightarrow> clock w | Some t \<Rightarrow> t);
          due = (case maxWaitTime d of
                   None \<Rightarrow> clock w + waitTime d
                 | Some m \<Rightarrow> min (clock w + waitTime d) (start + m));
          w1 = with_debounced
                 (\<lambda>d. d\<lparr>timerDue := Some due, burstStart := Some start,
                         pendingArgs := Some args\<rparr>) w;
          w2 = (if onLeading d \<and> idle then invoke args w1 else w1)
      in (lastResult (debounced (hook w2)), w2))"

definition cancel :: "world \<Rightarrow> world" where
  "cancel w = with_debounced debounced_cancel w"

text \<open>
  Modelled from the spec: \<^verbatim>\<open>flush()\<close>, ``if Pending, invokes the callback
  immediately with the currently pending args, records the return value as the new
  last result, discards the timer, transitions to Idle. If Idle, this is a no-op.
  Returns the last result in either case.''
\<close>

definition flush :: "world \<Rightarrow> val \<times> world" where
  "flush w =
     (let w1 = (case (timerDue (debounced (hook w)), pendingArgs (debounced (hook w))) of
                  (Some due, Some args) \<Rightarrow> with_debounced debounced_cancel (invoke args w)
                | _ \<Rightarrow> w)
      in (lastResult (debounced (hook w1)), w1))"

text \<open>
  Modelled from the spec: the timer of a Pending scheduler comes due. The trailing
  edge invokes the callback with the pending arguments unless \<open>trailing\<close> is
  disabled; the scheduler is Idle afterwards. \<open>advance\<close> lets the time pass up to
  \<open>t\<close>; the timer fires on the way if it is due by then.
\<close>

definition timer_fires :: "world \<Rightarrow> world" where
  "timer_fires w =
     (let d = debounced (hook w);
          w1 = (case pendingArgs d of
                  Some args \<Rightarrow> (if onTrailing d then invoke args w else w)
                | None \<Rightarrow> w)
      in with_debounced debounced_cancel w1)"

definition advance :: "real \<Rightarrow> world \<Rightarrow> world" where
  "advance t w =
     (case timerDue (debounced (hook w)) of
        Some due \<Rightarrow>
          (if due \<le> t
           then (timer_fires (w\<lparr>clock := max (clock w) due\<rparr>))\<lparr>clock := max (clock w) t\<rparr>
           else w\<lparr>clock := max (clock w) t\<rparr>)
      | None \<Rightarrow> w\<lparr>clock := max (clock w) t\<rparr>)"

text \<open>
  The life of the component: the first render (\<open>mount\<close>), later renders with the
  callback and options of the moment, and the unmount, which runs the cleanup of
  the unmount effect: it calls what \<open>unmountRef\<close> holds.
\<close>

definition mount :: "callback_fn \<Rightarrow> options \<Rightarrow> real \<Rightarrow> fault + world" where
  "mount cb opts t0 =
     (case useDebounceCallback debounce debounced_cancel cb opts None of
        Inl e \<Rightarrow> Inl e
      | Inr h \<Rightarrow> Inr \<lparr>hook = h, clock = t0, invocations = [], mounted = True\<rparr>)"

definition render :: "callback_fn \<Rightarrow> options \<Rightarrow> world \<Rightarrow> world" where
  "render cb opts w =
     (case useDebounceCallback debounce debounced_cancel cb opts (Some (hook w)) of
        Inl e \<Rightarrow> w
      | Inr h \<Rightarrow> w\<lparr>hook := h\<rparr>)"

definition unmount :: "world \<Rightarrow> world" where
  "unmount w = (with_debounced (unmountRef (hook w)) w)\<lparr>mounted := False\<rparr>"

datatype event =
    Run "val list"
  | Cancel
  | Flush
  | Pending
  | Advance real
  | Render callback_fn options

fun step :: "event \<Rightarrow> world \<Rightarrow> world" where
  "step (Run args) w = snd (run args w)"
| "step Cancel w = cancel w"
| "step Flush w = snd (flush w)"
| "step Pending w = w"
| "step (Advance t) w = advance t w"
| "step (Render cb opts) w = render cb opts w"

fun exec :: "event list \<Rightarrow> world \<Rightarrow> world" where
  "exec [] w = w"
| "exec (e # es) w = exec es (step e w)"

fun is_run :: "event \<Rightarrow> bool" where
  "is_run (Run args) = True"
| "is_run e = False"

text \<open>The result of the most recent completed invocation; undefined before the first.\<close>

definition most_recent :: "(val list \<times> val) list \<Rightarrow> val" where
  "most_recent entries = (if entries = [] then Undefined else snd (last entries))"

text \<open>
  What holds of every state of a mounted component: the unmount reference holds
  the cancellation of the memoised scheduler, and the scheduler's last result is
  the result of the most recent completed invocation.
\<close>

definition consistent :: "world \<Rightarrow> bool" where
  "consistent w \<longleftrightarrow>
     unmountRef (hook w) = debounced_cancel
     \<and> lastResult (debounced (hook w)) = most_recent (invocations w)"

text \<open>
  The callback of the latest render: what the callback reference holds after a
  run of events that began with the callback \<open>cb\<close>.
\<close>

fun latest_callback :: "callback_fn \<Rightarrow> event list \<Rightarrow> callback_fn" where
  "latest_callback cb [] = cb"
| "latest_callback cb (Render cb' opts # es) = latest_callback cb' es"
| "latest_callback cb (e # es) = latest_callback cb es"

text \<open>Concrete data for the examples.\<close>

definition first_arg :: callback_fn where
  "first_arg args = (case args of [] \<Rightarrow> Undefined | a # rest \<Rightarrow> a)"

definition echo :: callback_fn where
  "echo args = Tuple args"

definition opts0 :: options where
  "opts0 = \<lparr>wait = Some 100, leading = None, trailing = None, maxWait = None\<rparr>"

definition bad_options :: options where
  "bad_options = \<lparr>wait = Some (- 1), leading = None, trailing = None, maxWait = Some (- 5)\<rparr>"

definition world0 :: world where
  "world0 =
     \<lparr>hook = \<lparr>callbackRef = echo,
               debounced = \<lparr>wrapped = (\<lambda>current args. current args), waitTime = 100,
                             maxWaitTime = None, onLeading = False, onTrailing = True,
                             timerDue = None, burstStart = None, pendingArgs = None,
                             lastResult = Undefined\<rparr>,
               unmountRef = debounced_cancel\<rparr>,
      clock = 0, invocations = [], mounted = True\<rparr>"

section \<open>Properties of the numeric helpers\<close>

subsection \<open>Rounding\<close>











subsection \<open>The operations\<close>






text \<open>The literals of the examples.\<close>

lemma lit_0: "double_of_int 0 = Finite False 0 (- 1074)"
  by (simp add: double_of_int_def round_double_def)







lemma tenth: "decimal 1 10 = Finite False 7205759403792794 (- 56)"
  by code_simp

lemma three_tenths: "decimal 3 10 = Finite False 5404319552844595 (- 54)"
  by code_simp














subsection \<open>\<open>blend\<close>\<close>












lemma blend_tenth_zero_three:
  "blend [decimal 1 10, double_of_int 0, decimal 3 10] = Finite False 6665327448508334 (- 54)"
  unfolding tenth three_tenths lit_0 by code_simp





subsection \<open>\<open>map\<close>\<close>






section \<open>Properties of the binding helpers\<close>

subsection \<open>Reading the heap\<close>

lemma collect_Inr: "collect (map Inr xs) = Inr xs"
  by (induction xs) simp_all

lemma getValue_fresh_Source: "getValue (h @ [Source v]) (length h) = Inr v"
  by (simp add: getValue.simps [of "h @ [Source v]" "length h"])

text \<open>Allocation leaves the value of every existing binding as it was.\<close>

lemma getValue_append: "a < length h \<Longrightarrow> getValue (h @ ext) a = getValue h a"
proof (induction h a rule: getValue.induct)
  case (1 h a)
  show ?case
  proof (cases "h ! a")
    case (Plain fs)
    with 1 show ?thesis by (simp add: getValue.simps nth_append)
  next
    case (Source v)
    with 1 show ?thesis by (simp add: getValue.simps nth_append)
  next
    case (Mapped src f)
    with 1 show ?thesis
      by (simp add: getValue.simps [of h a] getValue.simps [of "h @ ext" a] nth_append)
  next
    case (Joined srcs)
    have "map (\<lambda>src. if src < a then getValue (h @ ext) src else Inl Dangling) srcs
        = map (\<lambda>src. if src < a then getValue h src else Inl Dangling) srcs"
      using 1 Joined by (intro map_cong) auto
    then have eq:
      "collect (map (\<lambda>src. if src < a then getValue (h @ ext) src else Inl Dangling) srcs)
        = collect (map (\<lambda>src. if src < a then getValue h src else Inl Dangling) srcs)"
      by (rule arg_cong)
    from 1(3) Joined show ?thesis
      by (simp add: getValue.simps [of h a] getValue.simps [of "h @ ext" a] nth_append eq)
  qed
qed

lemma getValue_joined_mapped:
  assumes "\<forall>a\<in>set srcs. a < length h"
  shows "getValue (h @ [Joined srcs, Mapped (length h) f]) (Suc (length h))
       = (case collect (map (getValue h) srcs) of Inl e \<Rightarrow> Inl e | Inr xs \<Rightarrow> f (Tuple xs))"
proof -
  let ?h = "h @ [Joined srcs, Mapped (length h) f]"
  have "map (\<lambda>src. if src < length h then getValue ?h src else Inl Dangling) srcs
      = map (getValue h) srcs"
    using assms by (intro map_cong) (auto simp: getValue_append)
  then have eq:
    "collect (map (\<lambda>src. if src < length h then getValue ?h src else Inl Dangling) srcs)
      = collect (map (getValue h) srcs)"
    by (rule arg_cong)
  have j: "getValue ?h (length h)
      = (case collect (map (getValue h) srcs) of Inl e \<Rightarrow> Inl e | Inr xs \<Rightarrow> Inr (Tuple xs))"
    by (simp add: getValue.simps [of ?h "length h"] nth_append eq)
  show ?thesis
    by (simp add: getValue.simps [of ?h "Suc (length h)"] nth_append j split: sum.splits)
qed

subsection \<open>The capability test\<close>

lemma isBinding_Ref: "isBinding h v \<Longrightarrow> \<exists>a. v = Ref a \<and> a < length h"
  by (cases v) (simp_all add: isBinding_def array_prototype_names_def object_prototype_names_def)

lemma isBinding_library:
  "a < length h \<Longrightarrow> is_library_binding (h ! a) \<Longrightarrow> isBinding h (Ref a)"
  by (cases "h ! a") (simp_all add: isBinding_def binding_member_names_def)

lemma has_property_append:
  "allocated h v \<Longrightarrow> has_property (h @ ext) name v = has_property h name v"
  by (cases v) (simp_all add: nth_append)

lemma isBinding_append: "allocated h v \<Longrightarrow> isBinding (h @ ext) v = isBinding h v"
  by (simp add: isBinding_def has_property_append)

text \<open>
  An object that is no binding and has a \<^verbatim>\<open>getValue\<close> and a \<^verbatim>\<open>map\<close> field
  passes the test: the statement of claim C4 fails on it.
\<close>

theorem isBinding_duck_counterexample:
  "\<not> is_library_binding (duck_heap ! 0) \<and> isBinding duck_heap (Ref 0)"
  by (simp add: duck_heap_def isBinding_def)

text \<open>
  Claim C4, as amended. \<open>isBinding\<close> is a test of the shape of a value: it holds
  exactly of the references to objects that have a \<^verbatim>\<open>getValue\<close> and a \<^verbatim>\<open>map\<close>
  property. Every binding of the library passes it, and so does every other
  object with two fields of these names, whatever they hold; a value that is not
  an object, and an object that lacks one of the two, fails it.
\<close>

theorem isBinding_structural:
  "isBinding h v \<longleftrightarrow>
     (\<exists>a. v = Ref a \<and> a < length h \<and>
        (case h ! a of
           Plain fs \<Rightarrow> ''getValue'' \<in> fst ` set fs \<and> ''map'' \<in> fst ` set fs
         | _ \<Rightarrow> True))"
proof (cases v)
  case (Ref a)
  show ?thesis
  proof (cases "a < length h")
    case True
    with Ref show ?thesis
      by (cases "h ! a")
        (simp_all add: isBinding_def object_prototype_names_def binding_member_names_def)
  next
    case False
    with Ref show ?thesis by (simp add: isBinding_def)
  qed
qed (simp_all add: isBinding_def array_prototype_names_def object_prototype_names_def)

theorem isBinding_structural_witness:
  "isBinding duck_heap (Ref 0)
   \<and> \<not> isBinding [Plain [(''getValue'', Num 1)]] (Ref 0)
   \<and> \<not> isBinding [] (Tuple [Num 1])
   \<and> \<not> isBinding [] Null
   \<and> isBinding [Source (Num 4)] (Ref 0)"
  using isBinding_structural [of duck_heap "Ref 0"]
    isBinding_structural [of "[Plain [(''getValue'', Num 1)]]" "Ref 0"]
    isBinding_structural [of "[]" "Tuple [Num 1]"]
    isBinding_structural [of "[]" Null]
    isBinding_structural [of "[Source (Num 4)]" "Ref 0"]
  by (simp add: duck_heap_def)

subsection \<open>\<open>toBinding\<close>\<close>

text \<open>
  Claim C3. On an input that passes the test \<open>toBinding\<close> returns the input itself,
  the same reference, and changes nothing. On an input that fails it, the result
  is a reference to a new object, a source cell that holds the input, appended to
  the heap. Applied to its own result, \<open>toBinding\<close> returns that result and
  allocates nothing.
\<close>

theorem toBinding_identity_or_fresh:
  "(isBinding (heap s) x \<longrightarrow> toBinding x s = (x, s))
   \<and> (\<not> isBinding (heap s) x \<longrightarrow>
        toBinding x s = (Ref (length (heap s)), s\<lparr>heap := heap s @ [Source x]\<rparr>)
        \<and> \<not> allocated (heap s) (fst (toBinding x s))
        \<and> getValue (heap (snd (toBinding x s))) (length (heap s)) = Inr x)
   \<and> (case toBinding x s of (b, s1) \<Rightarrow> isBinding (heap s1) b \<and> toBinding b s1 = (b, s1))"
proof (cases "isBinding (heap s) x")
  case True
  then show ?thesis by (simp add: toBinding_def)
next
  case False
  have "isBinding (heap s @ [Source x]) (Ref (length (heap s)))"
    by (simp add: isBinding_library)
  with False show ?thesis
    by (simp add: toBinding_def createBinding_def alloc_def getValue_fresh_Source)
qed

theorem toBinding_identity_or_fresh_witness:
  "isBinding [Source (Num 4)] (Ref 0)
   \<and> toBinding (Ref 0) \<lparr>heap = [Source (Num 4)], calls = []\<rparr>
       = (Ref 0, \<lparr>heap = [Source (Num 4)], calls = []\<rparr>)
   \<and> \<not> isBinding [Source (Num 4)] (Str ''a'')
   \<and> toBinding (Str ''a'') \<lparr>heap = [Source (Num 4)], calls = []\<rparr>
       = (Ref 1, \<lparr>heap = [Source (Num 4), Source (Str ''a'')], calls = []\<rparr>)
   \<and> getValue [Source (Num 4), Source (Str ''a'')] 1 = Inr (Str ''a'')
   \<and> toBinding (Ref 1) \<lparr>heap = [Source (Num 4), Source (Str ''a'')], calls = []\<rparr>
       = (Ref 1, \<lparr>heap = [Source (Num 4), Source (Str ''a'')], calls = []\<rparr>)"
  using toBinding_identity_or_fresh [of "\<lparr>heap = [Source (Num 4)], calls = []\<rparr>" "Ref 0"]
    toBinding_identity_or_fresh [of "\<lparr>heap = [Source (Num 4)], calls = []\<rparr>" "Str ''a''"]
  by (simp add: isBinding_def binding_member_names_def toBinding_def createBinding_def
      alloc_def getValue.simps)

subsection \<open>\<open>mapBinding\<close> and \<open>lerpBinding\<close>\<close>

text \<open>
  An object that is no binding and has a \<^verbatim>\<open>getValue\<close> and a \<^verbatim>\<open>map\<close> field is
  a plain value that \<open>mapBinding\<close> takes for a binding: it calls the object's own
  \<^verbatim>\<open>map\<close> field, does not apply the function and returns no binding. The
  statement of claim C2 fails on it.
\<close>

theorem mapBinding_duck_counterexample:
  "\<not> is_library_binding (duck_heap ! 0)
   \<and> answer (Ref 0) = Inr (Num 42)
   \<and> mapBinding (Ref 0) answer \<lparr>heap = duck_heap, calls = []\<rparr> = Inl NotCallable"
  by (simp add: duck_heap_def answer_def mapBinding_def isBinding_def binding_map_def)

text \<open>
  Claim C2, as amended. For a value \<open>x\<close> that fails the test \<open>isBinding\<close>,
  \<open>mapBinding x f\<close> applies \<open>f\<close> once, to \<open>x\<close>, and returns a new source cell holding
  \<open>f x\<close>; nobody holds its setter, so it is constant. (If \<open>f\<close> raises, so does the
  helper.) For a binding of the library, the result is the binding derived from
  it through \<open>f\<close>: in every later heap its value is \<open>f\<close> of the source's value in
  that heap. Any other object that passes the test is treated as a binding: the
  call goes to its own \<^verbatim>\<open>map\<close> field, and \<open>mapBinding\<close> does not apply \<open>f\<close>.
\<close>

theorem mapBinding_plain_or_bound:
  "(\<not> isBinding (heap s) x \<and> f x = Inr y \<longrightarrow>
      mapBinding x f s
        = Inr (Ref (length (heap s)),
               s\<lparr>calls := calls s @ [x], heap := heap s @ [Source y]\<rparr>)
      \<and> getValue (heap s @ [Source y]) (length (heap s)) = Inr y)
   \<and> (\<not> isBinding (heap s) x \<and> f x = Inl e \<longrightarrow> mapBinding x f s = Inl e)
   \<and> (a < length (heap s) \<and> is_library_binding (heap s ! a) \<longrightarrow>
      mapBinding (Ref a) f s
        = Inr (Ref (length (heap s)), s\<lparr>heap := heap s @ [Mapped a f]\<rparr>)
      \<and> (\<forall>h'. length (heap s) < length h' \<and> h' ! length (heap s) = Mapped a f \<longrightarrow>
            getValue h' (length (heap s))
              = (case getValue h' a of Inl e \<Rightarrow> Inl e | Inr v \<Rightarrow> f v)))
   \<and> (a < length (heap s) \<and> heap s ! a = Plain fs \<and> isBinding (heap s) (Ref a) \<longrightarrow>
      mapBinding (Ref a) f s = Inl (foreign_method fs ''map''))"
proof (intro conjI impI allI)
  assume "a < length (heap s) \<and> heap s ! a = Plain fs \<and> isBinding (heap s) (Ref a)"
  then show "mapBinding (Ref a) f s = Inl (foreign_method fs ''map'')"
    by (simp add: mapBinding_def binding_map_def)
next
  assume "\<not> isBinding (heap s) x \<and> f x = Inr y"
  then show "mapBinding x f s
        = Inr (Ref (length (heap s)),
               s\<lparr>calls := calls s @ [x], heap := heap s @ [Source y]\<rparr>)"
    by (simp add: mapBinding_def createBinding_def alloc_def)
next
  show "getValue (heap s @ [Source y]) (length (heap s)) = Inr y"
    by (rule getValue_fresh_Source)
next
  assume "\<not> isBinding (heap s) x \<and> f x = Inl e"
  then show "mapBinding x f s = Inl e"
    by (simp add: mapBinding_def)
next
  assume lib: "a < length (heap s) \<and> is_library_binding (heap s ! a)"
  then have "isBinding (heap s) (Ref a)" by (simp add: isBinding_library)
  with lib show "mapBinding (Ref a) f s
        = Inr (Ref (length (heap s)), s\<lparr>heap := heap s @ [Mapped a f]\<rparr>)"
    by (cases "heap s ! a") (simp_all add: mapBinding_def binding_map_def alloc_def)
next
  fix h'
  assume lib: "a < length (heap s) \<and> is_library_binding (heap s ! a)"
    and h': "length (heap s) < length h' \<and> h' ! length (heap s) = Mapped a f"
  then show "getValue h' (length (heap s))
              = (case getValue h' a of Inl e \<Rightarrow> Inl e | Inr v \<Rightarrow> f v)"
    by (simp add: getValue.simps [of h' "length (heap s)"])
qed

theorem mapBinding_plain_or_bound_witness:
  "\<not> isBinding [Source (Num 5)] (Num 5)
   \<and> twice (Num 5) = Inr (Num 10)
   \<and> mapBinding (Num 5) twice \<lparr>heap = [Source (Num 5)], calls = []\<rparr>
       = Inr (Ref 1, \<lparr>heap = [Source (Num 5), Source (Num 10)], calls = [Num 5]\<rparr>)
   \<and> getValue [Source (Num 5), Source (Num 10)] 1 = Inr (Num 10)
   \<and> is_library_binding ([Source (Num 5)] ! 0)
   \<and> mapBinding (Ref 0) twice \<lparr>heap = [Source (Num 5)], calls = []\<rparr>
       = Inr (Ref 1, \<lparr>heap = [Source (Num 5), Mapped 0 twice], calls = []\<rparr>)
   \<and> getValue [Source (Num 5), Mapped 0 twice] 1 = Inr (Num 10)
   \<and> getValue (heap (setValue 0 (Num 9) \<lparr>heap = [Source (Num 5), Mapped 0 twice], calls = []\<rparr>)) 1
       = Inr (Num 18)
   \<and> isBinding duck_heap (Ref 0)
   \<and> mapBinding (Ref 0) twice \<lparr>heap = duck_heap, calls = []\<rparr> = Inl NotCallable"
proof -
  have duck: "0 < length (heap \<lparr>heap = duck_heap, calls = []\<rparr>)
      \<and> heap \<lparr>heap = duck_heap, calls = []\<rparr> ! 0 = Plain [(''getValue'', Num 1), (''map'', Str ''x'')]
      \<and> isBinding (heap \<lparr>heap = duck_heap, calls = []\<rparr>) (Ref 0)"
    by (simp add: duck_heap_def isBinding_def)
  from mapBinding_plain_or_bound
    [where s = "\<lparr>heap = duck_heap, calls = []\<rparr>" and a = 0 and f = twice
       and fs = "[(''getValue'', Num 1), (''map'', Str ''x'')]"] duck
  have dk: "mapBinding (Ref 0) twice \<lparr>heap = duck_heap, calls = []\<rparr> = Inl NotCallable"
    by simp
  let ?s = "\<lparr>heap = [Source (Num 5)], calls = []\<rparr>"
  have plain: "\<not> isBinding (heap ?s) (Num 5) \<and> twice (Num 5) = Inr (Num 10)"
    by (simp add: isBinding_def twice_def)
  have lib: "0 < length (heap ?s) \<and> is_library_binding (heap ?s ! 0)"
    by simp
  note inst = mapBinding_plain_or_bound
    [where s = ?s and x = "Num 5" and f = twice and y = "Num 10" and a = 0]
  from inst plain have p: "mapBinding (Num 5) twice ?s
      = Inr (Ref 1, \<lparr>heap = [Source (Num 5), Source (Num 10)], calls = [Num 5]\<rparr>)"
    "getValue [Source (Num 5), Source (Num 10)] 1 = Inr (Num 10)"
    by simp_all
  from inst lib have b: "mapBinding (Ref 0) twice ?s
      = Inr (Ref 1, \<lparr>heap = [Source (Num 5), Mapped 0 twice], calls = []\<rparr>)"
    and track: "\<forall>h'. length (heap ?s) < length h' \<and> h' ! length (heap ?s) = Mapped 0 twice \<longrightarrow>
          getValue h' (length (heap ?s))
            = (case getValue h' 0 of Inl e \<Rightarrow> Inl e | Inr v \<Rightarrow> twice v)"
    by simp_all
  have v0: "getValue [Source (Num 5), Mapped 0 twice] 0 = Inr (Num 5)"
    "getValue [Source (Num 9), Mapped 0 twice] 0 = Inr (Num 9)"
    by (simp_all add: getValue.simps)
  from track have "getValue [Source (Num 5), Mapped 0 twice] 1
      = (case getValue [Source (Num 5), Mapped 0 twice] 0 of
           Inl e \<Rightarrow> Inl e | Inr v \<Rightarrow> twice v)"
    by (rule allE [where x = "[Source (Num 5), Mapped 0 twice]"]) simp
  with v0 have t1: "getValue [Source (Num 5), Mapped 0 twice] 1 = Inr (Num 10)"
    by (simp add: twice_def)
  from track have "getValue [Source (Num 9), Mapped 0 twice] 1
      = (case getValue [Source (Num 9), Mapped 0 twice] 0 of
           Inl e \<Rightarrow> Inl e | Inr v \<Rightarrow> twice v)"
    by (rule allE [where x = "[Source (Num 9), Mapped 0 twice]"]) simp
  with v0 have t2: "getValue [Source (Num 9), Mapped 0 twice] 1 = Inr (Num 18)"
    by (simp add: twice_def)
  have upd: "heap (setValue 0 (Num 9) \<lparr>heap = [Source (Num 5), Mapped 0 twice], calls = []\<rparr>)
      = [Source (Num 9), Mapped 0 twice]"
    by (simp add: setValue_def)
  from plain lib p b t1 t2 upd duck dk show ?thesis by simp
qed



subsection \<open>\<open>composeBindings\<close>\<close>

lemma input_ok_allocated: "input_ok h v \<Longrightarrow> allocated h v"
  by (cases v) simp_all

lemma input_ok_append: "input_ok h v \<Longrightarrow> input_ok (h @ ext) v"
proof (cases v)
  case (Ref a)
  assume ok: "input_ok h v"
  with Ref have a: "a < length h" by simp
  then have "isBinding (h @ ext) (Ref a) = isBinding h (Ref a)"
    by (simp add: isBinding_append)
  with ok Ref a show ?thesis by (simp add: nth_append)
qed simp_all

lemma read_input_append: "input_ok h v \<Longrightarrow> read_input (h @ ext) v = read_input h v"
proof -
  assume ok: "input_ok h v"
  then have al: "allocated h v" by (rule input_ok_allocated)
  show ?thesis
  proof (cases "isBinding h v")
    case True
    then obtain a where "v = Ref a" "a < length h" using isBinding_Ref by blast
    with True al show ?thesis
      by (simp add: read_input_def isBinding_append getValue_append)
  next
    case False
    with al show ?thesis by (simp add: read_input_def isBinding_append)
  qed
qed

lemma bound_to_append: "bound_to h r b \<Longrightarrow> bound_to (h @ ext) r b"
  by (auto simp: bound_to_def nth_append getValue_append)

lemma toBinding_heap:
  "toBinding v s = (b, s1) \<Longrightarrow> \<exists>ext. heap s1 = heap s @ ext"
  by (auto simp: toBinding_def createBinding_def alloc_def split: if_splits)

lemma toBinding_bound:
  assumes ok: "input_ok (heap s) v" and tb: "toBinding v s = (b, s1)"
  shows "bound_to (heap s1) (read_input (heap s) v) b"
proof (cases "isBinding (heap s) v")
  case True
  then obtain a where a: "v = Ref a" "a < length (heap s)" using isBinding_Ref by blast
  from tb True have eq: "b = v" "s1 = s" by (simp_all add: toBinding_def)
  from ok a True have lib: "is_library_binding (heap s ! a)" by simp
  from True a have "read_input (heap s) v = getValue (heap s) a"
    by (simp add: read_input_def)
  with a lib eq show ?thesis by (simp add: bound_to_def)
next
  case False
  with tb have eq: "b = Ref (length (heap s))" "heap s1 = heap s @ [Source v]"
    by (auto simp: toBinding_def createBinding_def alloc_def)
  from False have "read_input (heap s) v = Inr v" by (simp add: read_input_def)
  with eq show ?thesis by (simp add: bound_to_def getValue_fresh_Source)
qed

lemma map_toBinding_heap:
  "map_toBinding vs s = (bs, s1) \<Longrightarrow> \<exists>ext. heap s1 = heap s @ ext"
proof (induction vs arbitrary: s bs s1)
  case Nil
  then show ?case by simp
next
  case (Cons v vs)
  obtain b s' where tb: "toBinding v s = (b, s')" by (cases "toBinding v s")
  obtain bs' s'' where rest: "map_toBinding vs s' = (bs', s'')"
    by (cases "map_toBinding vs s'")
  from Cons.prems tb rest have "s1 = s''" by simp
  moreover from toBinding_heap [OF tb] obtain e1 where "heap s' = heap s @ e1" ..
  moreover from Cons.IH [OF rest] obtain e2 where "heap s'' = heap s' @ e2" ..
  ultimately show ?case by simp
qed

lemma map_toBinding_bound:
  assumes "\<forall>v\<in>set vs. input_ok (heap s) v" and "map_toBinding vs s = (bs, s1)"
  shows "list_all2 (\<lambda>v b. bound_to (heap s1) (read_input (heap s) v) b) vs bs"
  using assms
proof (induction vs arbitrary: s bs s1)
  case Nil
  then show ?case by simp
next
  case (Cons v vs)
  obtain b s' where tb: "toBinding v s = (b, s')" by (cases "toBinding v s")
  obtain bs' s'' where rest: "map_toBinding vs s' = (bs', s'')"
    by (cases "map_toBinding vs s'")
  from Cons.prems(2) tb rest have res: "bs = b # bs'" "s1 = s''" by simp_all
  from toBinding_heap [OF tb] obtain e1 where e1: "heap s' = heap s @ e1" ..
  from map_toBinding_heap [OF rest] obtain e2 where e2: "heap s'' = heap s' @ e2" ..
  from Cons.prems(1) have okv: "input_ok (heap s) v"
    and oks: "\<forall>w\<in>set vs. input_ok (heap s) w" by simp_all
  from oks e1 have "\<forall>w\<in>set vs. input_ok (heap s') w"
    by (simp add: input_ok_append)
  from Cons.IH [OF this rest]
  have "list_all2 (\<lambda>w b. bound_to (heap s'') (read_input (heap s') w) b) vs bs'" .
  moreover have "\<forall>w\<in>set vs. read_input (heap s') w = read_input (heap s) w"
    using oks e1 by (simp add: read_input_append)
  ultimately have tl: "list_all2 (\<lambda>w b. bound_to (heap s'') (read_input (heap s) w) b) vs bs'"
    by (auto simp: list_all2_conv_all_nth)
  from toBinding_bound [OF okv tb] e2
  have "bound_to (heap s'') (read_input (heap s) v) b"
    by (simp add: bound_to_append)
  with tl res show ?case by simp
qed

lemma bound_addrs:
  assumes "list_all2 (\<lambda>v b. bound_to h (rd v) b) vs bs"
  shows "\<exists>srcs. map (binding_addr h) bs = map Inr srcs
           \<and> (\<forall>a\<in>set srcs. a < length h)
           \<and> map (getValue h) srcs = map rd vs"
  using assms
proof (induction vs bs rule: list_all2_induct)
  case Nil
  then show ?case by simp
next
  case (Cons v vs b bs)
  from Cons.IH obtain srcs where srcs: "map (binding_addr h) bs = map Inr srcs"
    "\<forall>a\<in>set srcs. a < length h" "map (getValue h) srcs = map rd vs" by blast
  from Cons.hyps(1) obtain a where a: "b = Ref a" "a < length h" "is_library_binding (h ! a)"
    "getValue h a = rd v" by (auto simp: bound_to_def)
  show ?case
  proof (intro exI conjI)
    show "map (binding_addr h) (b # bs) = map Inr (a # srcs)" using a srcs by simp
    show "\<forall>x\<in>set (a # srcs). x < length h" using a srcs by simp
    show "map (getValue h) (a # srcs) = map rd (v # vs)" using a srcs by simp
  qed
qed

text \<open>
  The result of \<open>composeBindings\<close> reads as the combiner applied to what the inputs
  stand for, in their order.
\<close>

lemma composeBindings_reads_inputs:
  assumes "\<forall>v\<in>set vs. input_ok (heap s) v"
  shows "\<exists>r s'. composeBindings vs combiner s = Inr (Ref r, s')
           \<and> getValue (heap s') r
               = (case collect (map (read_input (heap s)) vs) of
                    Inl e \<Rightarrow> Inl e
                  | Inr xs \<Rightarrow> combiner xs)"
proof -
  obtain bs s1 where m: "map_toBinding vs s = (bs, s1)" by (cases "map_toBinding vs s")
  from map_toBinding_bound [OF assms m] bound_addrs
  obtain srcs where srcs: "map (binding_addr (heap s1)) bs = map Inr srcs"
    "\<forall>a\<in>set srcs. a < length (heap s1)"
    "map (getValue (heap s1)) srcs = map (read_input (heap s)) vs" by blast
  let ?j = "length (heap s1)"
  let ?s3 = "s1\<lparr>heap := heap s1 @ [Joined srcs, Mapped ?j (spread combiner)]\<rparr>"
  have "composeBindings vs combiner s = Inr (Ref (Suc ?j), ?s3)"
    by (simp add: composeBindings_def m joinBindings_def srcs(1) collect_Inr alloc_def
        binding_map_def nth_append)
  moreover have "getValue (heap ?s3) (Suc ?j)
      = (case collect (map (read_input (heap s)) vs) of Inl e \<Rightarrow> Inl e | Inr xs \<Rightarrow> combiner xs)"
  proof -
    have "getValue (heap ?s3) (Suc ?j)
      = (case collect (map (getValue (heap s1)) srcs) of Inl e \<Rightarrow> Inl e
         | Inr xs \<Rightarrow> spread combiner (Tuple xs))"
      using getValue_joined_mapped [OF srcs(2), of "spread combiner"] by simp
    also have "\<dots> = (case collect (map (read_input (heap s)) vs) of Inl e \<Rightarrow> Inl e
         | Inr xs \<Rightarrow> combiner xs)"
      unfolding srcs(3) by (cases "collect (map (read_input (heap s)) vs)") simp_all
    finally show ?thesis .
  qed
  ultimately show ?thesis by blast
qed

text \<open>
  An object that is no binding and has a \<^verbatim>\<open>getValue\<close> and a \<^verbatim>\<open>map\<close> field is
  a constant input that \<open>composeBindings\<close> takes for a binding: \<open>toBinding\<close> returns
  it as it is and it is handed to \<^verbatim>\<open>joinBindings\<close>, which is given an object that
  is not a binding; no binding with the combiner's value comes back. The statement
  of claim C1 fails on it.
\<close>

theorem composeBindings_duck_counterexample:
  "\<not> is_library_binding (duck_heap ! 0)
   \<and> composeBindings [Ref 0, Num 3] plus_combiner \<lparr>heap = duck_heap, calls = []\<rparr>
       = Inl ForeignCall"
  by (simp add: duck_heap_def composeBindings_def toBinding_def isBinding_def
      createBinding_def alloc_def joinBindings_def)

text \<open>
  Claim C1, as amended. For inputs that fail the test \<open>isBinding\<close> (a reference
  among them is to an object of the heap) and any combiner, \<open>composeBindings\<close>
  returns a binding whose value is the combiner applied to the inputs, in the
  order given. More generally, for inputs that are constants or
  bindings of the library, its value is the combiner applied to the constants and
  to the current values of the bindings, position by position. In particular
  \<^verbatim>\<open>composeBindings(3, binding-of-4, (a, b) => a + b)\<close> has the value 7 at first,
  and 13 once the binding is set to 10.
\<close>

theorem composeBindings_value:
  "((\<forall>v\<in>set vs. allocated (heap s) v \<and> \<not> isBinding (heap s) v) \<longrightarrow>
      (\<exists>r s'. composeBindings vs combiner s = Inr (Ref r, s')
         \<and> getValue (heap s') r = combiner vs))
   \<and> ((\<forall>v\<in>set vs. input_ok (heap s) v) \<longrightarrow>
      (\<exists>r s'. composeBindings vs combiner s = Inr (Ref r, s')
         \<and> getValue (heap s') r
             = (case collect (map (read_input (heap s)) vs) of
                  Inl e \<Rightarrow> Inl e
                | Inr xs \<Rightarrow> combiner xs)))
   \<and> (case createBinding (Num 4) empty_state of
         (b, s0) \<Rightarrow>
           (case composeBindings [Num 3, b] plus_combiner s0 of
              Inr (Ref r, s') \<Rightarrow>
                getValue (heap s') r = Inr (Num 7)
                \<and> getValue (heap (setValue 0 (Num 10) s')) r = Inr (Num 13)
            | _ \<Rightarrow> False))"
proof (intro conjI impI)
  assume "\<forall>v\<in>set vs. input_ok (heap s) v"
  then show "\<exists>r s'. composeBindings vs combiner s = Inr (Ref r, s')
         \<and> getValue (heap s') r
             = (case collect (map (read_input (heap s)) vs) of
                  Inl e \<Rightarrow> Inl e
                | Inr xs \<Rightarrow> combiner xs)"
    by (rule composeBindings_reads_inputs)
next
  assume const: "\<forall>v\<in>set vs. allocated (heap s) v \<and> \<not> isBinding (heap s) v"
  have ok: "\<forall>v\<in>set vs. input_ok (heap s) v"
  proof
    fix v assume "v \<in> set vs"
    with const have "allocated (heap s) v" "\<not> isBinding (heap s) v" by simp_all
    then show "input_ok (heap s) v" by (cases v) simp_all
  qed
  have "map (read_input (heap s)) vs = map Inr vs"
    using const by (intro map_cong) (simp_all add: read_input_def)
  then have "collect (map (read_input (heap s)) vs) = Inr vs"
    by (simp only: collect_Inr)
  with composeBindings_reads_inputs [OF ok, of combiner]
  show "\<exists>r s'. composeBindings vs combiner s = Inr (Ref r, s')
         \<and> getValue (heap s') r = combiner vs"
    by simp
next
  show "case createBinding (Num 4) empty_state of
         (b, s0) \<Rightarrow>
           (case composeBindings [Num 3, b] plus_combiner s0 of
              Inr (Ref r, s') \<Rightarrow>
                getValue (heap s') r = Inr (Num 7)
                \<and> getValue (heap (setValue 0 (Num 10) s')) r = Inr (Num 13)
            | _ \<Rightarrow> False)"
    by (simp add: createBinding_def alloc_def empty_state_def composeBindings_def
        toBinding_def isBinding_def joinBindings_def binding_map_def setValue_def
        binding_member_names_def plus_combiner_def getValue.simps)
qed

theorem composeBindings_value_witness:
  "allocated (heap empty_state) (Num 3) \<and> allocated (heap empty_state) (Num 4)
   \<and> \<not> isBinding (heap empty_state) (Num 3) \<and> \<not> isBinding (heap empty_state) (Num 4)
   \<and> (\<exists>r s'. composeBindings [Num 3, Num 4] plus_combiner empty_state = Inr (Ref r, s')
         \<and> getValue (heap s') r = Inr (Num 7))
   \<and> input_ok [Source (Num 4)] (Num 3) \<and> input_ok [Source (Num 4)] (Ref 0)
   \<and> (\<exists>r s'. composeBindings [Num 3, Ref 0] plus_combiner \<lparr>heap = [Source (Num 4)], calls = []\<rparr>
                = Inr (Ref r, s')
         \<and> getValue (heap s') r = Inr (Num 7))"
proof -
  have rd: "read_input [Source (Num 4)] (Ref 0) = Inr (Num 4)"
    "read_input [Source (Num 4)] (Num 3) = Inr (Num 3)"
    by (simp_all add: read_input_def isBinding_def binding_member_names_def getValue.simps)
  from composeBindings_value [of "[Num 3, Num 4]" empty_state plus_combiner]
    composeBindings_value [of "[Num 3, Ref 0]" "\<lparr>heap = [Source (Num 4)], calls = []\<rparr>"
      plus_combiner] rd
  show ?thesis
    by (simp add: isBinding_def plus_combiner_def binding_member_names_def)
qed

section \<open>Properties of the debounce hook\<close>

lemma useLatest_value: "useLatest v isStrictEqual ref = v"
  by (cases ref) (simp_all add: useLatest_def isStrictEqual_def)

lemma useDebounceCallback_first:
  "useDebounceCallback mk cn cb opts None
     = (case mk (\<lambda>current args. current args) (wait opts) opts of
          Inl e \<Rightarrow> Inl e
        | Inr d \<Rightarrow> Inr \<lparr>callbackRef = cb, debounced = d, unmountRef = cn\<rparr>)"
  by (simp add: useDebounceCallback_def useUnmountEffect_def useLatest_value split: sum.splits)

lemma useDebounceCallback_again:
  "useDebounceCallback mk cn cb opts (Some p)
     = Inr \<lparr>callbackRef = cb, debounced = debounced p, unmountRef = cn\<rparr>"
  by (simp add: useDebounceCallback_def useUnmountEffect_def useLatest_value)

text \<open>
  Claim C6. The hook examines no value of the configuration itself: on the first
  render it hands \<^verbatim>\<open>options.wait\<close> and the options, as they are, to the
  scheduling primitive, and reports exactly what the primitive reports, whatever
  the primitive; a later render reports nothing. With the primitive of the spec,
  which detects a misuse when the scheduler is constructed, a configuration
  outside the valid domain makes the first render fail with the misuse fault: no
  scheduler is made, so nothing is left for a first call of \<open>run\<close> to report. A
  configuration in the valid domain is accepted.
\<close>

theorem construction_reports_misuse:
  "(\<not> valid_config opts \<longrightarrow>
      useDebounceCallback debounce debounced_cancel cb opts None = Inl MisuseFault
      \<and> mount cb opts t0 = Inl MisuseFault)
   \<and> (valid_config opts \<longrightarrow> \<not> isl (mount cb opts t0))
   \<and> isl (useDebounceCallback mk cn cb opts None)
       = isl (mk (\<lambda>current args. current args) (wait opts) opts)
   \<and> (\<forall>e. mk (\<lambda>current args. current args) (wait opts) opts = Inl e \<longrightarrow>
         useDebounceCallback mk cn cb opts None = Inl e)
   \<and> \<not> isl (useDebounceCallback mk cn cb opts (Some p))"
  by (simp add: useDebounceCallback_first useDebounceCallback_again mount_def debounce_def
      valid_config_def split: sum.splits)

theorem construction_reports_misuse_witness:
  "\<not> valid_config bad_options
   \<and> useDebounceCallback debounce debounced_cancel echo bad_options None = Inl MisuseFault
   \<and> mount echo bad_options 0 = Inl MisuseFault
   \<and> valid_config opts0
   \<and> \<not> isl (mount echo opts0 0)"
proof -
  have bad: "\<not> valid_config bad_options"
    by (simp add: valid_config_def valid_timing_def bad_options_def)
  have good: "valid_config opts0"
    by (simp add: valid_config_def valid_timing_def opts0_def)
  from construction_reports_misuse
      [of bad_options echo 0 debounce debounced_cancel "hook world0"] bad
    construction_reports_misuse
      [of opts0 echo 0 debounce debounced_cancel "hook world0"] good
  show ?thesis by simp
qed

subsection \<open>What every state of a mounted component satisfies\<close>

lemma most_recent_snoc: "most_recent (entries @ [(args, r)]) = r"
  by (simp add: most_recent_def)

lemma consistent_invoke: "consistent w \<Longrightarrow> consistent (invoke args w)"
  by (simp add: consistent_def invoke_def Let_def most_recent_snoc)

lemma consistent_with_debounced:
  "consistent w \<Longrightarrow> lastResult (f (debounced (hook w))) = lastResult (debounced (hook w))
     \<Longrightarrow> consistent (with_debounced f w)"
  by (simp add: consistent_def with_debounced_def)

lemma consistent_cancel_d: "consistent w \<Longrightarrow> consistent (with_debounced debounced_cancel w)"
  by (rule consistent_with_debounced) (simp_all add: debounced_cancel_def)

lemma consistent_run: "consistent w \<Longrightarrow> consistent (snd (run args w))"
  by (simp add: run_def Let_def consistent_invoke consistent_with_debounced)

lemma consistent_flush: "consistent w \<Longrightarrow> consistent (snd (flush w))"
  by (simp add: flush_def Let_def consistent_invoke consistent_cancel_d
      split: option.splits)

lemma consistent_clock: "consistent (w\<lparr>clock := t\<rparr>) = consistent w"
  by (simp add: consistent_def)

lemma consistent_timer_fires: "consistent w \<Longrightarrow> consistent (timer_fires w)"
  by (simp add: timer_fires_def Let_def consistent_invoke consistent_cancel_d
      split: option.splits)

lemma consistent_advance: "consistent w \<Longrightarrow> consistent (advance t w)"
  by (simp add: advance_def consistent_clock consistent_timer_fires split: option.splits)

lemma consistent_render: "consistent w \<Longrightarrow> consistent (render cb opts w)"
  by (simp add: render_def useDebounceCallback_again consistent_def)

lemma consistent_step: "consistent w \<Longrightarrow> consistent (step e w)"
  by (cases e)
    (simp_all add: consistent_run consistent_flush consistent_advance consistent_render
      cancel_def consistent_cancel_d)

lemma consistent_exec: "consistent w \<Longrightarrow> consistent (exec es w)"
  by (induction es arbitrary: w) (simp_all add: consistent_step)

lemma consistent_mount: "mount cb opts t0 = Inr w0 \<Longrightarrow> consistent w0"
  by (auto simp: mount_def useDebounceCallback_first debounce_def consistent_def
      most_recent_def split: if_splits)

lemma mount_world0: "mount echo opts0 0 = Inr world0"
  by (simp add: mount_def useDebounceCallback_first debounce_def valid_timing_def opts0_def
      world0_def)

subsection \<open>Teardown\<close>

text \<open>An Idle scheduler stays Idle and invokes nothing, as long as \<open>run\<close> is not called.\<close>

lemma idle_step:
  assumes "\<not> pending w" and "\<not> is_run e"
  shows "\<not> pending (step e w) \<and> invocations (step e w) = invocations w"
proof (cases e)
  case (Run args)
  with assms show ?thesis by simp
next
  case Cancel
  with assms show ?thesis
    by (simp add: pending_def cancel_def with_debounced_def debounced_cancel_def)
next
  case Flush
  with assms show ?thesis by (simp add: pending_def flush_def)
next
  case Pending
  with assms show ?thesis by simp
next
  case (Advance t)
  with assms show ?thesis by (simp add: pending_def advance_def)
next
  case (Render cb opts)
  with assms show ?thesis by (simp add: pending_def render_def useDebounceCallback_again)
qed

lemma idle_exec:
  "\<not> pending w \<Longrightarrow> \<forall>e\<in>set es. \<not> is_run e \<Longrightarrow>
     \<not> pending (exec es w) \<and> invocations (exec es w) = invocations w"
proof (induction es arbitrary: w)
  case Nil
  then show ?case by simp
next
  case (Cons e es)
  from Cons.prems have "\<not> is_run e" by simp
  from idle_step [OF Cons.prems(1) this]
  have a: "\<not> pending (step e w)" "invocations (step e w) = invocations w" by simp_all
  from Cons.prems have "\<forall>e\<in>set es. \<not> is_run e" by simp
  from Cons.IH [OF a(1) this] a(2) show ?case by simp
qed

text \<open>
  Claim C7. Whatever a mounted component has done (calls of \<open>run\<close>, \<open>cancel\<close> and
  \<open>flush\<close>, time passing, renders), its unmount cancels a pending invocation: the
  scheduler is Idle afterwards, the unmount itself invokes nothing, and however
  the time passes after it the wrapped callback is not invoked again. (Calling
  \<open>run\<close> after the teardown would arm a new timer: the spec leaves that to the
  caller, and the statement is about what follows without such a call.)
\<close>

theorem unmount_cancels_pending:
  assumes "mount cb opts t0 = Inr w0"
  shows "\<not> pending (unmount (exec es w0))
     \<and> invocations (unmount (exec es w0)) = invocations (exec es w0)
     \<and> (\<forall>later. (\<forall>e\<in>set later. \<not> is_run e) \<longrightarrow>
            invocations (exec later (unmount (exec es w0))) = invocations (exec es w0)
            \<and> \<not> pending (exec later (unmount (exec es w0))))"
proof -
  let ?w = "exec es w0"
  from assms have "consistent ?w" by (simp add: consistent_mount consistent_exec)
  then have u: "unmountRef (hook ?w) = debounced_cancel" by (simp add: consistent_def)
  have idle: "\<not> pending (unmount ?w)"
    by (simp add: unmount_def u with_debounced_def pending_def debounced_cancel_def)
  have same: "invocations (unmount ?w) = invocations ?w"
    by (simp add: unmount_def with_debounced_def)
  from idle_exec [OF idle] same idle show ?thesis by simp
qed

theorem unmount_cancels_pending_witness:
  "mount echo opts0 0 = Inr world0
   \<and> pending (exec [Run [Num 1], Advance 50] world0)
   \<and> \<not> pending (unmount (exec [Run [Num 1], Advance 50] world0))
   \<and> invocations (exec [Advance 1000, Flush] (unmount (exec [Run [Num 1], Advance 50] world0))) = []
   \<and> invocations (exec [Advance 1000] (exec [Run [Num 1], Advance 50] world0))
       = [([Num 1], Tuple [Num 1])]"
proof -
  have p: "pending (exec [Run [Num 1], Advance 50] world0)"
    by (simp add: world0_def run_def with_debounced_def advance_def pending_def Let_def)
  have l: "invocations (exec [Run [Num 1], Advance 50] world0) = []"
    by (simp add: world0_def run_def with_debounced_def advance_def Let_def)
  have f: "invocations (exec [Advance 1000] (exec [Run [Num 1], Advance 50] world0))
       = [([Num 1], Tuple [Num 1])]"
    by (simp add: world0_def run_def with_debounced_def advance_def Let_def timer_fires_def
        invoke_def echo_def debounced_cancel_def)
  from unmount_cancels_pending [OF mount_world0, of "[Run [Num 1], Advance 50]"]
  have u: "\<not> pending (unmount (exec [Run [Num 1], Advance 50] world0))"
    and a: "\<forall>later. (\<forall>e\<in>set later. \<not> is_run e) \<longrightarrow>
            invocations (exec later (unmount (exec [Run [Num 1], Advance 50] world0)))
              = invocations (exec [Run [Num 1], Advance 50] world0)"
    by simp_all
  from a have "invocations (exec [Advance 1000, Flush]
        (unmount (exec [Run [Num 1], Advance 50] world0)))
      = invocations (exec [Run [Num 1], Advance 50] world0)"
    by (rule allE [where x = "[Advance 1000, Flush]"]) simp
  with mount_world0 p u l f show ?thesis by simp
qed

subsection \<open>The value \<open>run\<close> returns\<close>

text \<open>The scheduler keeps the wrapped callback, which calls what the reference holds.\<close>

lemma wrapped_step: "wrapped (debounced (hook (step e w))) = wrapped (debounced (hook w))"
proof (cases e)
  case (Run args)
  then show ?thesis by (simp add: run_def Let_def invoke_def with_debounced_def)
next
  case Cancel
  then show ?thesis by (simp add: cancel_def with_debounced_def debounced_cancel_def)
next
  case Flush
  then show ?thesis
    by (simp add: flush_def Let_def invoke_def with_debounced_def debounced_cancel_def
        split: option.splits)
next
  case Pending
  then show ?thesis by simp
next
  case (Advance t)
  then show ?thesis
    by (simp add: advance_def timer_fires_def Let_def invoke_def with_debounced_def
        debounced_cancel_def split: option.splits)
next
  case (Render cb opts)
  then show ?thesis by (simp add: render_def useDebounceCallback_again)
qed

lemma wrapped_exec: "wrapped (debounced (hook (exec es w))) = wrapped (debounced (hook w))"
  by (induction es arbitrary: w) (simp_all add: wrapped_step)

lemma wrapped_mount:
  "mount cb opts t0 = Inr w0 \<Longrightarrow> wrapped (debounced (hook w0)) = (\<lambda>current args. current args)"
  by (auto simp: mount_def useDebounceCallback_first debounce_def split: if_splits)

text \<open>The callback reference holds the callback of the latest render.\<close>

lemma callbackRef_step:
  "callbackRef (hook (step e w)) = latest_callback (callbackRef (hook w)) [e]"
proof (cases e)
  case (Run args)
  then show ?thesis by (simp add: run_def Let_def invoke_def with_debounced_def)
next
  case Cancel
  then show ?thesis by (simp add: cancel_def with_debounced_def)
next
  case Flush
  then show ?thesis
    by (simp add: flush_def Let_def invoke_def with_debounced_def split: option.splits)
next
  case Pending
  then show ?thesis by simp
next
  case (Advance t)
  then show ?thesis
    by (simp add: advance_def timer_fires_def Let_def invoke_def with_debounced_def
        split: option.splits)
next
  case (Render cb opts)
  then show ?thesis by (simp add: render_def useDebounceCallback_again)
qed

lemma callbackRef_exec:
  "callbackRef (hook (exec es w)) = latest_callback (callbackRef (hook w)) es"
proof (induction es arbitrary: w)
  case Nil
  then show ?case by simp
next
  case (Cons e es)
  have "callbackRef (hook (step e w)) = latest_callback (callbackRef (hook w)) [e]"
    by (rule callbackRef_step)
  with Cons.IH [of "step e w"] show ?case by (cases e) simp_all
qed

lemma callbackRef_mount: "mount cb opts t0 = Inr w0 \<Longrightarrow> callbackRef (hook w0) = cb"
  by (auto simp: mount_def useDebounceCallback_first debounce_def split: if_splits)

text \<open>
  An event adds at most one entry to the log of invocations: the arguments of an
  invocation with the result of the callback that the reference holds.
\<close>

lemma invoke_entry:
  assumes "wrapped (debounced (hook w)) = (\<lambda>current args. current args)"
  shows "invocations (invoke args w) = invocations w @ [(args, callbackRef (hook w) args)]"
  using assms by (simp add: invoke_def Let_def)

lemma step_entry:
  assumes wr: "wrapped (debounced (hook w)) = (\<lambda>current args. current args)"
  shows "invocations (step e w) = invocations w
     \<or> (\<exists>a. invocations (step e w) = invocations w @ [(a, callbackRef (hook w) a)])"
proof (cases e)
  case (Run args)
  let ?w1 = "with_debounced
      (\<lambda>d. d\<lparr>timerDue := Some (case maxWaitTime (debounced (hook w)) of
                 None \<Rightarrow> clock w + waitTime (debounced (hook w))
               | Some m \<Rightarrow> min (clock w + waitTime (debounced (hook w)))
                   ((case burstStart (debounced (hook w)) of None \<Rightarrow> clock w | Some t \<Rightarrow> t) + m)),
             burstStart := Some (case burstStart (debounced (hook w)) of None \<Rightarrow> clock w | Some t \<Rightarrow> t),
             pendingArgs := Some args\<rparr>) w"
  have w1: "wrapped (debounced (hook ?w1)) = (\<lambda>current args. current args)"
    "callbackRef (hook ?w1) = callbackRef (hook w)" "invocations ?w1 = invocations w"
    using wr by (simp_all add: with_debounced_def)
  have "step e w = ?w1 \<or> step e w = invoke args ?w1"
    using Run by (simp add: run_def Let_def)
  with invoke_entry [OF w1(1), of args] w1 show ?thesis by auto
next
  case Cancel
  then show ?thesis by (simp add: cancel_def with_debounced_def)
next
  case Flush
  have "step e w = w \<or> (\<exists>a. step e w = with_debounced debounced_cancel (invoke a w))"
    using Flush by (auto simp: flush_def Let_def split: option.splits)
  with invoke_entry [OF wr] show ?thesis by (auto simp: with_debounced_def)
next
  case Pending
  then show ?thesis by simp
next
  case (Advance t)
  let ?c = "\<lambda>u. u\<lparr>clock := max (clock w) t\<rparr>"
  have "invocations (step e w) = invocations w
      \<or> (\<exists>a due. step e w
            = ?c (with_debounced debounced_cancel (invoke a (w\<lparr>clock := max (clock w) due\<rparr>))))"
    using Advance
    by (auto simp: advance_def timer_fires_def Let_def with_debounced_def split: option.splits)
  moreover have "\<And>a due. invocations (invoke a (w\<lparr>clock := max (clock w) due\<rparr>))
      = invocations w @ [(a, callbackRef (hook w) a)]"
    using wr by (simp add: invoke_def Let_def)
  ultimately show ?thesis by (auto simp: with_debounced_def)
next
  case (Render cb opts)
  then show ?thesis by (simp add: render_def useDebounceCallback_again)
qed

text \<open>
  Claim C8. In every state of a mounted component, a call of \<open>run\<close> returns the
  result of the most recent completed invocation of the wrapped callback
  (undefined when there has been none). The wrapped callback calls the callback
  of the latest render, and the log of invocations holds the results of these
  calls and nothing else. Either the call of \<open>run\<close> itself completes an invocation
  at once (the leading edge, from Idle) and returns the callback's result on its
  own arguments, or it only schedules: then no invocation is made and the value
  returned is the result of the latest earlier one, not one of this call.
\<close>

theorem run_returns_last_result:
  assumes "mount cb opts t0 = Inr w0" and "run args (exec es w0) = (r, w')"
  shows "r = most_recent (invocations w')
     \<and> callbackRef (hook (exec es w0)) = latest_callback cb es
     \<and> (if onLeading (debounced (hook (exec es w0))) \<and> \<not> pending (exec es w0)
         then r = latest_callback cb es args
              \<and> invocations w' = invocations (exec es w0) @ [(args, r)]
         else invocations w' = invocations (exec es w0)
              \<and> r = most_recent (invocations (exec es w0)))
     \<and> (\<forall>e. invocations (step e (exec es w0)) = invocations (exec es w0)
            \<or> (\<exists>a. invocations (step e (exec es w0))
                      = invocations (exec es w0) @ [(a, latest_callback cb es a)]))"
proof -
  let ?w = "exec es w0"
  from assms(1) have c: "consistent ?w" by (simp add: consistent_mount consistent_exec)
  then have "consistent (snd (run args ?w))" by (rule consistent_run)
  with assms(2) have c': "consistent w'" by simp
  from assms(1) have wr: "wrapped (debounced (hook ?w)) = (\<lambda>current args. current args)"
    by (simp add: wrapped_exec wrapped_mount)
  from assms(1) have cb: "callbackRef (hook ?w) = latest_callback cb es"
    by (simp add: callbackRef_exec callbackRef_mount)
  from assms(2) have r: "r = lastResult (debounced (hook w'))"
    by (auto simp: run_def Let_def)
  with c' have first: "r = most_recent (invocations w')" by (simp add: consistent_def)
  from assms(2) c wr cb
  have second: "if onLeading (debounced (hook ?w)) \<and> \<not> pending ?w
        then r = latest_callback cb es args \<and> invocations w' = invocations ?w @ [(args, r)]
        else invocations w' = invocations ?w \<and> r = most_recent (invocations ?w)"
    by (auto simp: run_def Let_def pending_def invoke_def with_debounced_def consistent_def)
  from step_entry [OF wr] cb
  have third: "\<forall>e. invocations (step e ?w) = invocations ?w
            \<or> (\<exists>a. invocations (step e ?w) = invocations ?w @ [(a, latest_callback cb es a)])"
    by simp
  from first cb second third show ?thesis by simp
qed

theorem run_returns_last_result_witness:
  "mount echo opts0 0 = Inr world0
   \<and> run [Num 1] world0 = (Undefined, snd (run [Num 1] world0))
   \<and> fst (run [Num 7] (exec [Render first_arg opts0, Run [Str ''a'', Num 2], Advance 100] world0))
       = Str ''a''
   \<and> invocations (snd (run [Num 7]
         (exec [Render first_arg opts0, Run [Str ''a'', Num 2], Advance 100] world0)))
       = [([Str ''a'', Num 2], Str ''a'')]"
proof -
  let ?es = "[Render first_arg opts0, Run [Str ''a'', Num 2], Advance 100]"
  obtain r w' where rw: "run [Num 7] (exec ?es world0) = (r, w')"
    by (cases "run [Num 7] (exec ?es world0)")
  have l: "invocations (exec ?es world0) = [([Str ''a'', Num 2], Str ''a'')]"
    by (simp add: world0_def run_def with_debounced_def advance_def Let_def timer_fires_def
        invoke_def first_arg_def debounced_cancel_def render_def useDebounceCallback_again)
  have nl: "\<not> onLeading (debounced (hook (exec ?es world0)))"
    by (simp add: world0_def run_def with_debounced_def advance_def Let_def timer_fires_def
        invoke_def first_arg_def debounced_cancel_def render_def useDebounceCallback_again)
  from run_returns_last_result [OF mount_world0 rw] nl l
  have "r = Str ''a''" "invocations w' = [([Str ''a'', Num 2], Str ''a'')]"
    by (simp_all add: most_recent_def)
  moreover have "run [Num 1] world0 = (Undefined, snd (run [Num 1] world0))"
    by (simp add: world0_def run_def with_debounced_def Let_def)
  ultimately show ?thesis using mount_world0 rw by simp
qed

end
